theory Spec2Isabelle
  imports Main "HOL-Library.Word"
begin

unbundle bit_operations_syntax

section \<open>JavaScript strings\<close>

text \<open>
  The codec of \<^verbatim>\<open>EmvoQrGenerator\<close> (ScannerPage.tsx) works on JavaScript strings:
  sequences of UTF-16 code units. \<^verbatim>\<open>str.length\<close> counts code units and
  \<^verbatim>\<open>substring\<close> cuts between them.
\<close>

type_synonym jschar = "16 word"
type_synonym jsstring = "jschar list"

text \<open>An ASCII literal of the source as a JavaScript string.\<close>

definition js :: "string \<Rightarrow> jsstring" where
  "js s = map (\<lambda>c. of_char c) s"

text \<open>\<^verbatim>\<open>n.toString()\<close> for a non-negative integer: its decimal digits.\<close>

definition digit10 :: "nat \<Rightarrow> jschar" where
  "digit10 d = of_nat (48 + d)"

fun toString10 :: "nat \<Rightarrow> jsstring" where
  "toString10 n = (if n < 10 then [digit10 n] else toString10 (n div 10) @ [digit10 (n mod 10)])"

declare toString10.simps [simp del]

text \<open>\<^verbatim>\<open>s.padStart(n, c)\<close> with a one-character pad string.\<close>

definition padStart :: "jsstring \<Rightarrow> nat \<Rightarrow> jschar \<Rightarrow> jsstring" where
  "padStart s n c = replicate (n - length s) c @ s"

section \<open>Data model\<close>

text \<open>The interfaces \<^verbatim>\<open>AdditionalData\<close>, \<^verbatim>\<open>EmvoQrData\<close> and \<^verbatim>\<open>TLVTag\<close>.\<close>

record AdditionalData =
  ad00 :: jsstring
  ad01 :: jsstring
  ad02 :: jsstring

record EmvoQrData =
  payloadFormatIndicator :: jsstring
  pointOfInitiationMethod :: jsstring
  merchantAccountInfo :: jsstring
  merchantId :: jsstring
  merchantCategoryCode :: jsstring
  transactionCurrency :: jsstring
  countryCode :: jsstring
  merchantName :: jsstring
  merchantCity :: jsstring
  additionalData :: AdditionalData
  crc :: jsstring

datatype TLVTag = TLVTag (tlv_tag: jsstring) (tlv_value: jsstring) (tlv_length: nat)
  (subTags: "TLVTag list option")

section \<open>TLV encoding\<close>

definition getEmvoLength :: "jsstring \<Rightarrow> nat" where
  "getEmvoLength str = length str"

definition formatLength :: "nat \<Rightarrow> jsstring" where
  "formatLength len = padStart (toString10 len) 2 0x30"

definition createTLV :: "jsstring \<Rightarrow> jsstring \<Rightarrow> jsstring" where
  "createTLV tag val = tag @ formatLength (getEmvoLength val) @ val"

text \<open>\<^verbatim>\<open>merchantId || "410790020044601"\<close>: the empty string is falsy.\<close>

definition generateMerchantAccountInfo :: "jsstring \<Rightarrow> jsstring" where
  "generateMerchantAccountInfo mId =
     (let merchantIdTLV = createTLV (js ''00'') mId;
          fixedValueTLV = createTLV (js ''01'') (if mId \<noteq> [] then mId else js ''410790020044601'')
      in merchantIdTLV @ fixedValueTLV)"

definition generateAdditionalDataTLV :: "AdditionalData \<Rightarrow> jsstring" where
  "generateAdditionalDataTLV ad =
     (let subTLV00 = createTLV (js ''00'') (ad00 ad);
          subTLV01 = createTLV (js ''01'') (ad01 ad);
          subTLV02 = createTLV (js ''02'') (ad02 ad)
      in subTLV00 @ subTLV01 @ subTLV02)"

section \<open>Checksum\<close>

text \<open>
  \<^verbatim>\<open>new TextEncoder().encode(data)\<close> is the browser's UTF-8 encoder: a surrogate pair
  becomes one four-byte sequence, a lone surrogate becomes U+FFFD (EF BF BD).
\<close>

fun utf8_encode :: "jsstring \<Rightarrow> 8 word list" where
  "utf8_encode [] = []"
| "utf8_encode (u # us) =
     (if u < 0x80 then ucast u # utf8_encode us
      else if u < 0x800 then
        [0xC0 OR ucast (drop_bit 6 u), 0x80 OR ucast (u AND 0x3F)] @ utf8_encode us
      else if 0xD800 \<le> u \<and> u \<le> 0xDBFF then
        (case us of
           [] \<Rightarrow> [0xEF, 0xBF, 0xBD]
         | v # vs \<Rightarrow>
             if 0xDC00 \<le> v \<and> v \<le> 0xDFFF then
               (let cp = (0x10000 :: 32 word) + push_bit 10 (ucast (u AND 0x3FF)) + ucast (v AND 0x3FF)
                in [0xF0 OR ucast (drop_bit 18 cp),
                    0x80 OR ucast (drop_bit 12 cp AND 0x3F),
                    0x80 OR ucast (drop_bit 6 cp AND 0x3F),
                    0x80 OR ucast (cp AND 0x3F)] @ utf8_encode vs)
             else [0xEF, 0xBF, 0xBD] @ utf8_encode us)
      else if 0xDC00 \<le> u \<and> u \<le> 0xDFFF then [0xEF, 0xBF, 0xBD] @ utf8_encode us
      else [0xE0 OR ucast (drop_bit 12 u),
            0x80 OR ucast (drop_bit 6 u AND 0x3F),
            0x80 OR ucast (u AND 0x3F)] @ utf8_encode us)"

text \<open>
  JavaScript's bitwise operators work on 32-bit integers, so the accumulator of
  \<^verbatim>\<open>calculateCRC16\<close> is a \<open>32 word\<close>; \<^verbatim>\<open>crc & 0x8000\<close> is truthy when it is not 0.
  \<open>crc_round\<close> is the body of the inner loop, \<open>crc_byte\<close> the body of the outer one.
\<close>

definition crc_round :: "32 word \<Rightarrow> 32 word" where
  "crc_round c =
     (let c' = (if c AND 0x8000 \<noteq> 0 then push_bit 1 c XOR 0x1021 else push_bit 1 c)
      in c' AND 0xFFFF)"

definition crc_byte :: "32 word \<Rightarrow> 8 word \<Rightarrow> 32 word" where
  "crc_byte c b = (crc_round ^^ 8) (c XOR push_bit 8 (ucast b))"

definition crc16_bytes :: "8 word list \<Rightarrow> 32 word" where
  "crc16_bytes bytes = foldl crc_byte 0xFFFF bytes"

text \<open>
  \<^verbatim>\<open>n.toString(16)\<close> of an integer: lower-case digits, a minus sign for a negative one.
  \<^verbatim>\<open>toUpperCase\<close> is modelled on the ASCII letters, all that \<^verbatim>\<open>toString(16)\<close> emits.
\<close>

definition digit16 :: "nat \<Rightarrow> jschar" where
  "digit16 d = (if d < 10 then of_nat (48 + d) else of_nat (87 + d))"

fun toString16_nat :: "nat \<Rightarrow> jsstring" where
  "toString16_nat n =
     (if n < 16 then [digit16 n] else toString16_nat (n div 16) @ [digit16 (n mod 16)])"

declare toString16_nat.simps [simp del]

definition toString16 :: "int \<Rightarrow> jsstring" where
  "toString16 n = (if n < 0 then 0x2D # toString16_nat (nat (- n)) else toString16_nat (nat n))"

definition toUpperCase :: "jsstring \<Rightarrow> jsstring" where
  "toUpperCase s = map (\<lambda>c. if 0x61 \<le> c \<and> c \<le> 0x7A then c - 0x20 else c) s"

definition calculateCRC16 :: "jsstring \<Rightarrow> jsstring" where
  "calculateCRC16 data =
     padStart (toUpperCase (toString16 (sint (crc16_bytes (utf8_encode data))))) 4 0x30"

section \<open>Encoding a record\<close>

definition qrWithoutCrc :: "EmvoQrData \<Rightarrow> jsstring" where
  "qrWithoutCrc formData =
     (let merchantAccountInfo' = generateMerchantAccountInfo (merchantId formData);
          additionalDataValue = generateAdditionalDataTLV (additionalData formData)
      in createTLV (js ''00'') (payloadFormatIndicator formData)
       @ createTLV (js ''01'') (pointOfInitiationMethod formData)
       @ createTLV (js ''44'') merchantAccountInfo'
       @ createTLV (js ''52'') (merchantCategoryCode formData)
       @ createTLV (js ''53'') (transactionCurrency formData)
       @ createTLV (js ''58'') (countryCode formData)
       @ createTLV (js ''59'') (merchantName formData)
       @ createTLV (js ''60'') (merchantCity formData)
       @ createTLV (js ''64'') additionalDataValue)"

text \<open>The string that \<^verbatim>\<open>generateQrString\<close> stores with \<^verbatim>\<open>setQrString\<close>.\<close>

definition generateQrString :: "EmvoQrData \<Rightarrow> jsstring" where
  "generateQrString formData =
     (let crcInput = qrWithoutCrc formData @ js ''6304'';
          calculatedCrc = calculateCRC16 crcInput
      in qrWithoutCrc formData @ createTLV (js ''63'') calculatedCrc)"

text \<open>The TLV structure that \<^verbatim>\<open>generateQrString\<close> stores with \<^verbatim>\<open>setTlvs\<close>.\<close>

definition leafTag :: "jsstring \<Rightarrow> jsstring \<Rightarrow> TLVTag" where
  "leafTag t v = TLVTag t v (getEmvoLength v) None"

definition generateTlvs :: "EmvoQrData \<Rightarrow> TLVTag list" where
  "generateTlvs formData =
     (let merchantAccountInfo' = generateMerchantAccountInfo (merchantId formData);
          additionalDataValue = generateAdditionalDataTLV (additionalData formData);
          calculatedCrc = calculateCRC16 (qrWithoutCrc formData @ js ''6304'')
      in [leafTag (js ''00'') (payloadFormatIndicator formData),
          leafTag (js ''01'') (pointOfInitiationMethod formData),
          TLVTag (js ''44'') merchantAccountInfo' (getEmvoLength merchantAccountInfo')
            (Some [leafTag (js ''00'') (merchantId formData),
                   leafTag (js ''01'') (js ''410790020044601'')]),
          leafTag (js ''52'') (merchantCategoryCode formData),
          leafTag (js ''53'') (transactionCurrency formData),
          leafTag (js ''58'') (countryCode formData),
          leafTag (js ''59'') (merchantName formData),
          leafTag (js ''60'') (merchantCity formData),
          TLVTag (js ''64'') additionalDataValue (getEmvoLength additionalDataValue)
            (Some [leafTag (js ''00'') (ad00 (additionalData formData)),
                   leafTag (js ''01'') (ad01 (additionalData formData)),
                   leafTag (js ''02'') (ad02 (additionalData formData))]),
          leafTag (js ''63'') calculatedCrc])"

section \<open>Decoding\<close>

text \<open>
  \<^verbatim>\<open>s.substring(a, b)\<close>: both indices are clamped to \<open>0..length s\<close> and swapped when
  the first is the larger.
\<close>

definition substring :: "jsstring \<Rightarrow> int \<Rightarrow> int \<Rightarrow> jsstring" where
  "substring s a b =
     (let len = int (length s);
          finalStart = min (max a 0) len;
          finalEnd = min (max b 0) len;
          from = min finalStart finalEnd;
          to = max finalStart finalEnd
      in take (nat (to - from)) (drop (nat from) s))"

text \<open>
  \<^verbatim>\<open>parseInt(s, 10)\<close>: leading white space is skipped, one sign is read, then the
  longest run of decimal digits; without a digit the result is \<^verbatim>\<open>NaN\<close>, here \<open>None\<close>.
  (The value is exact for the strings \<^verbatim>\<open>parseTLV\<close> passes, which have at most two
  characters.)
\<close>

definition isStrWhiteSpaceChar :: "jschar \<Rightarrow> bool" where
  "isStrWhiteSpaceChar c \<longleftrightarrow>
     c \<in> {0x09, 0x0A, 0x0B, 0x0C, 0x0D, 0x20, 0xA0, 0x1680, 0x2028, 0x2029, 0x202F, 0x205F,
           0x3000, 0xFEFF}
     \<or> (0x2000 \<le> c \<and> c \<le> 0x200A)"

definition isDigit :: "jschar \<Rightarrow> bool" where
  "isDigit c \<longleftrightarrow> 0x30 \<le> c \<and> c \<le> 0x39"

definition digitsValue :: "jsstring \<Rightarrow> nat" where
  "digitsValue z = foldl (\<lambda>a c. 10 * a + (unat c - 48)) 0 z"

definition parseInt10 :: "jsstring \<Rightarrow> int option" where
  "parseInt10 s =
     (let t = dropWhile isStrWhiteSpaceChar s;
          sign = (case t of c # _ \<Rightarrow> if c = 0x2D then - 1 else 1 | [] \<Rightarrow> (1 :: int));
          u = (case t of c # r \<Rightarrow> if c = 0x2D \<or> c = 0x2B then r else t | [] \<Rightarrow> t);
          z = takeWhile isDigit u
      in if z = [] then None else Some (sign * int (digitsValue z)))"

text \<open>The object \<^verbatim>\<open>parseTLV\<close> returns; \<^verbatim>\<open>null\<close> is \<open>None\<close>.\<close>

record ParsedTLV =
  tag :: jsstring
  length_tlv :: int
  value_tlv :: jsstring
  nextIndex :: int

definition parseTLV :: "jsstring \<Rightarrow> int \<Rightarrow> ParsedTLV option" where
  "parseTLV data startIndex =
     (if startIndex \<ge> int (length data) - 3 then None
      else
        let tag' = substring data startIndex (startIndex + 2);
            lengthStr = substring data (startIndex + 2) (startIndex + 4)
        in case parseInt10 lengthStr of
             None \<Rightarrow> None
           | Some len \<Rightarrow>
               if startIndex + 4 + len > int (length data) then None
               else Some \<lparr>tag = tag', length_tlv = len,
                           value_tlv = substring data (startIndex + 4) (startIndex + 4 + len),
                           nextIndex = startIndex + 4 + len\<rparr>)"

text \<open>
  The \<^verbatim>\<open>while\<close> loop of \<^verbatim>\<open>parseSubTLVs\<close>. Nothing bounds the number of its
  iterations, so the loop is a partial function: \<open>None\<close> means that it never returns.
\<close>

partial_function (option) parseSubTLVs_loop ::
    "jsstring \<Rightarrow> int \<Rightarrow> (jsstring \<rightharpoonup> jsstring) \<Rightarrow> (jsstring \<rightharpoonup> jsstring) option" where
  "parseSubTLVs_loop data index subTlvs =
     (if index < int (length data) then
        (case parseTLV data index of
           None \<Rightarrow> Some subTlvs
         | Some parsed \<Rightarrow>
             parseSubTLVs_loop data (nextIndex parsed) (subTlvs(tag parsed \<mapsto> value_tlv parsed)))
      else Some subTlvs)"

declare parseSubTLVs_loop.simps [code]

definition parseSubTLVs :: "jsstring \<Rightarrow> (jsstring \<rightharpoonup> jsstring) option" where
  "parseSubTLVs data = parseSubTLVs_loop data 0 Map.empty"

text \<open>\<^verbatim>\<open>subTlvs[k] || ""\<close>: a missing key and the empty string both give \<^verbatim>\<open>""\<close>.\<close>

definition lookupOrEmpty :: "(jsstring \<rightharpoonup> jsstring) \<Rightarrow> jsstring \<Rightarrow> jsstring" where
  "lookupOrEmpty subTlvs k = (case subTlvs k of None \<Rightarrow> [] | Some v \<Rightarrow> if v \<noteq> [] then v else [])"

text \<open>
  \<^verbatim>\<open>parsedData: Partial<EmvoQrData>\<close>: a field that was never assigned is \<open>None\<close>.
\<close>

record PartialEmvoQrData =
  p_payloadFormatIndicator :: "jsstring option"
  p_pointOfInitiationMethod :: "jsstring option"
  p_merchantAccountInfo :: "jsstring option"
  p_merchantId :: "jsstring option"
  p_merchantCategoryCode :: "jsstring option"
  p_transactionCurrency :: "jsstring option"
  p_countryCode :: "jsstring option"
  p_merchantName :: "jsstring option"
  p_merchantCity :: "jsstring option"
  p_additionalData :: "AdditionalData option"
  p_crc :: "jsstring option"

definition initialParsedData :: PartialEmvoQrData where
  "initialParsedData =
     \<lparr>p_payloadFormatIndicator = None, p_pointOfInitiationMethod = None,
      p_merchantAccountInfo = None, p_merchantId = None, p_merchantCategoryCode = None,
      p_transactionCurrency = None, p_countryCode = None, p_merchantName = None,
      p_merchantCity = None,
      p_additionalData = Some \<lparr>ad00 = [], ad01 = [], ad02 = []\<rparr>,
      p_crc = None\<rparr>"

text \<open>
  The \<^verbatim>\<open>switch (parsed.tag)\<close> of \<^verbatim>\<open>parseQrString\<close>, which reads \<^verbatim>\<open>parsed.tag\<close> and
  \<^verbatim>\<open>parsed.value\<close>; it has no default case. The result is \<open>None\<close> when the call of
  \<^verbatim>\<open>parseSubTLVs\<close> never returns.
\<close>

definition switchTag :: "jsstring \<Rightarrow> jsstring \<Rightarrow> PartialEmvoQrData \<Rightarrow> PartialEmvoQrData option" where
  "switchTag parsedTag parsedValue parsedData =
     (if parsedTag = js ''00'' then
        Some (parsedData\<lparr>p_payloadFormatIndicator := Some parsedValue\<rparr>)
      else if parsedTag = js ''01'' then
        Some (parsedData\<lparr>p_pointOfInitiationMethod := Some parsedValue\<rparr>)
      else if parsedTag = js ''44'' then
        (case parseSubTLVs parsedValue of
           None \<Rightarrow> None
         | Some merchantSubTlvs \<Rightarrow>
             Some (parsedData\<lparr>p_merchantAccountInfo := Some parsedValue,
                               p_merchantId := Some (lookupOrEmpty merchantSubTlvs (js ''00''))\<rparr>))
      else if parsedTag = js ''52'' then
        Some (parsedData\<lparr>p_merchantCategoryCode := Some parsedValue\<rparr>)
      else if parsedTag = js ''53'' then
        Some (parsedData\<lparr>p_transactionCurrency := Some parsedValue\<rparr>)
      else if parsedTag = js ''58'' then
        Some (parsedData\<lparr>p_countryCode := Some parsedValue\<rparr>)
      else if parsedTag = js ''59'' then
        Some (parsedData\<lparr>p_merchantName := Some parsedValue\<rparr>)
      else if parsedTag = js ''60'' then
        Some (parsedData\<lparr>p_merchantCity := Some parsedValue\<rparr>)
      else if parsedTag = js ''64'' then
        (case parseSubTLVs parsedValue of
           None \<Rightarrow> None
         | Some additionalSubTlvs \<Rightarrow>
             Some (parsedData\<lparr>p_additionalData := Some
                     \<lparr>ad00 = lookupOrEmpty additionalSubTlvs (js ''00''),
                      ad01 = lookupOrEmpty additionalSubTlvs (js ''01''),
                      ad02 = lookupOrEmpty additionalSubTlvs (js ''02'')\<rparr>\<rparr>))
      else if parsedTag = js ''63'' then
        Some (parsedData\<lparr>p_crc := Some parsedValue\<rparr>)
      else Some parsedData)"

text \<open>The \<^verbatim>\<open>while\<close> loop of \<^verbatim>\<open>parseQrString\<close>.\<close>

partial_function (option) parseQrString_loop ::
    "jsstring \<Rightarrow> int \<Rightarrow> PartialEmvoQrData \<Rightarrow> PartialEmvoQrData option" where
  "parseQrString_loop qrStringToParse index parsedData =
     (if index < int (length qrStringToParse) then
        (case parseTLV qrStringToParse index of
           None \<Rightarrow> Some parsedData
         | Some parsed \<Rightarrow>
             (case switchTag (tag parsed) (value_tlv parsed) parsedData of
                None \<Rightarrow> None
              | Some parsedData' \<Rightarrow>
                  parseQrString_loop qrStringToParse (nextIndex parsed) parsedData'))
      else Some parsedData)"

declare parseQrString_loop.simps [code]

text \<open>
  The updater given to \<^verbatim>\<open>setFormData\<close>:
  \<^verbatim>\<open>{...prev, ...parsedData, additionalData: parsedData.additionalData || prev.additionalData}\<close>.
\<close>

definition orPrev :: "'a option \<Rightarrow> 'a \<Rightarrow> 'a" where
  "orPrev p v = (case p of None \<Rightarrow> v | Some w \<Rightarrow> w)"

definition mergeFormData :: "EmvoQrData \<Rightarrow> PartialEmvoQrData \<Rightarrow> EmvoQrData" where
  "mergeFormData prev parsedData =
     \<lparr>payloadFormatIndicator = orPrev (p_payloadFormatIndicator parsedData) (payloadFormatIndicator prev),
      pointOfInitiationMethod = orPrev (p_pointOfInitiationMethod parsedData) (pointOfInitiationMethod prev),
      merchantAccountInfo = orPrev (p_merchantAccountInfo parsedData) (merchantAccountInfo prev),
      merchantId = orPrev (p_merchantId parsedData) (merchantId prev),
      merchantCategoryCode = orPrev (p_merchantCategoryCode parsedData) (merchantCategoryCode prev),
      transactionCurrency = orPrev (p_transactionCurrency parsedData) (transactionCurrency prev),
      countryCode = orPrev (p_countryCode parsedData) (countryCode prev),
      merchantName = orPrev (p_merchantName parsedData) (merchantName prev),
      merchantCity = orPrev (p_merchantCity parsedData) (merchantCity prev),
      additionalData = orPrev (p_additionalData parsedData) (additionalData prev),
      crc = orPrev (p_crc parsedData) (crc prev)\<rparr>"

text \<open>
  \<^verbatim>\<open>parseQrString\<close> returns nothing: it replaces the form data \<open>prev\<close> of the component.
  The model returns the new form data, and \<open>None\<close> when the call never returns. No
  statement of its \<^verbatim>\<open>try\<close> block throws, so the \<^verbatim>\<open>catch\<close> branch is never taken.
\<close>

definition parseQrString :: "jsstring \<Rightarrow> EmvoQrData \<Rightarrow> EmvoQrData option" where
  "parseQrString qrStringToParse prev =
     map_option (mergeFormData prev) (parseQrString_loop qrStringToParse 0 initialParsedData)"

text \<open>The initial form data of the component.\<close>

definition initialFormData :: EmvoQrData where
  "initialFormData =
     \<lparr>payloadFormatIndicator = js ''01'', pointOfInitiationMethod = js ''11'',
      merchantAccountInfo = js ''0018com.konai.konacard0115410790020044601'',
      merchantId = js ''com.konai.konacard'', merchantCategoryCode = js ''3001'',
      transactionCurrency = js ''410'', countryCode = js ''KR'', merchantName = js ''KONA'',
      merchantCity = js ''KONA'',
      additionalData = \<lparr>ad00 = js ''KO'', ad01 = [0xD14C, 0xC2A4, 0xD2B8],
                        ad02 = [0xACBD, 0xAE30, 0xB3C4]\<rparr>,
      crc = js ''A26F''\<rparr>"

section \<open>Reference definitions\<close>

text \<open>
  CRC-16/CCITT-FALSE as the specification words it, on a 16-bit accumulator: start at
  \<open>0xFFFF\<close>; for each octet, XOR the octet shifted left by 8 into the accumulator, then
  eight times shift left by one, XOR-ing the polynomial \<open>0x1021\<close> when the top bit was set.
  \<open>hex4\<close> renders the accumulator as four upper-case hexadecimal digits.
\<close>

definition ccitt_round :: "16 word \<Rightarrow> 16 word" where
  "ccitt_round a = (if bit a 15 then push_bit 1 a XOR 0x1021 else push_bit 1 a)"

definition ccitt_octet :: "16 word \<Rightarrow> 8 word \<Rightarrow> 16 word" where
  "ccitt_octet a b = (ccitt_round ^^ 8) (a XOR push_bit 8 (ucast b))"

definition crc16_ccitt_false :: "8 word list \<Rightarrow> 16 word" where
  "crc16_ccitt_false bs = foldl ccitt_octet 0xFFFF bs"

definition hexUpper :: "nat \<Rightarrow> jschar" where
  "hexUpper d = (if d < 10 then of_nat (48 + d) else of_nat (55 + d))"

definition hex4 :: "16 word \<Rightarrow> jsstring" where
  "hex4 w = (let n = unat w in
     [hexUpper (n div 4096 mod 16), hexUpper (n div 256 mod 16), hexUpper (n div 16 mod 16), hexUpper (n mod 16)])"

text \<open>
  A sequence of TLV nodes, given as (tag, value) pairs, and its wire form: the
  concatenation of the \<^verbatim>\<open>createTLV\<close> strings. A node is well formed when its tag has two
  characters and its value at most 99. \<open>storeTLV\<close> is the assignment
  \<^verbatim>\<open>subTlvs[parsed.tag] = parsed.value\<close>; \<open>foldTags\<close> runs the switch of
  \<^verbatim>\<open>parseQrString\<close> over the nodes in order; \<open>compositeParses\<close> says that the walk over
  the value of a composite node (tag 44 or 64) returns.
\<close>

definition encodeTLVs :: "(jsstring \<times> jsstring) list \<Rightarrow> jsstring" where
  "encodeTLVs tlvs = concat (map (\<lambda>(t, v). createTLV t v) tlvs)"

definition wellFormed :: "jsstring \<times> jsstring \<Rightarrow> bool" where
  "wellFormed tv \<longleftrightarrow> length (fst tv) = 2 \<and> length (snd tv) \<le> 99"

definition storeTLV :: "jsstring \<times> jsstring \<Rightarrow> (jsstring \<rightharpoonup> jsstring) \<Rightarrow> (jsstring \<rightharpoonup> jsstring)" where
  "storeTLV tv subTlvs = subTlvs(fst tv \<mapsto> snd tv)"

fun foldTags :: "(jsstring \<times> jsstring) list \<Rightarrow> PartialEmvoQrData \<Rightarrow> PartialEmvoQrData option" where
  "foldTags [] parsedData = Some parsedData"
| "foldTags ((t, v) # tlvs) parsedData =
     (case switchTag t v parsedData of
        None \<Rightarrow> None
      | Some parsedData' \<Rightarrow> foldTags tlvs parsedData')"

definition compositeParses :: "jsstring \<times> jsstring \<Rightarrow> bool" where
  "compositeParses tv \<longleftrightarrow>
     (if fst tv = js ''44'' \<or> fst tv = js ''64'' then parseSubTLVs (snd tv) \<noteq> None else True)"

text \<open>
  The tags with a case in the switch of \<^verbatim>\<open>parseQrString\<close>. \<open>headerStops rest\<close> says that the
  length header at the start of \<open>rest\<close> makes \<^verbatim>\<open>parseTLV\<close> return \<^verbatim>\<open>null\<close>: it is not a number,
  or the length it declares exceeds what is left. \<open>recordTLVs\<close> is the node sequence that
  \<^verbatim>\<open>generateQrString\<close> emits for a record.
\<close>

definition knownTags :: "jsstring list" where
  "knownTags = [js ''00'', js ''01'', js ''44'', js ''52'', js ''53'', js ''58'', js ''59'',
     js ''60'', js ''64'', js ''63'']"

definition headerStops :: "jsstring \<Rightarrow> bool" where
  "headerStops rest \<longleftrightarrow>
     (case parseInt10 (substring rest 2 4) of
        None \<Rightarrow> True
      | Some n \<Rightarrow> int (length rest) < 4 + n)"


text \<open>
  \<open>parsedTLVs\<close> is the \<^verbatim>\<open>while\<close> loop of \<^verbatim>\<open>parseQrString\<close> again, with the same guard, the
  same \<^verbatim>\<open>parseTLV\<close> call and the same next index, returning the (tag, value) pairs it parses
  in order instead of running the switch. \<open>lastValue tlvs t\<close> is the value of the last pair
  with tag \<open>t\<close>. \<open>subField v k\<close> is \<^verbatim>\<open>parseSubTLVs(v)[k] || ""\<close>.
\<close>

partial_function (option) parsedTLVs :: "jsstring \<Rightarrow> int \<Rightarrow> (jsstring \<times> jsstring) list option" where
  "parsedTLVs qrStringToParse index =
     (if index < int (length qrStringToParse) then
        (case parseTLV qrStringToParse index of
           None \<Rightarrow> Some []
         | Some parsed \<Rightarrow>
             Option.bind (parsedTLVs qrStringToParse (nextIndex parsed))
               (\<lambda>later. Some ((tag parsed, value_tlv parsed) # later)))
      else Some [])"

declare parsedTLVs.simps [code]

definition lastValue :: "(jsstring \<times> jsstring) list \<Rightarrow> jsstring \<Rightarrow> jsstring option" where
  "lastValue tlvs t = map_of (rev tlvs) t"

definition subField :: "jsstring \<Rightarrow> jsstring \<Rightarrow> jsstring" where
  "subField v k = (case parseSubTLVs v of None \<Rightarrow> [] | Some subTlvs \<Rightarrow> lookupOrEmpty subTlvs k)"

text \<open>Form data held after the user edited two fields of the initial form data.\<close>

definition editedFormData :: EmvoQrData where
  "editedFormData = initialFormData\<lparr>merchantName := js ''OTHER'', merchantCity := js ''ELSEWHERE''\<rparr>"

section \<open>Properties of the encoder\<close>

lemmas eval_defs = js_def createTLV_def getEmvoLength_def formatLength_def padStart_def
  digit10_def toString10.simps generateMerchantAccountInfo_def generateAdditionalDataTLV_def

lemma digit10_0: "digit10 0 = 0x30"
  by (simp add: digit10_def)

lemma formatLength_two_digits:
  assumes "n \<le> 99"
  shows "formatLength n = [digit10 (n div 10), digit10 (n mod 10)]"
proof (cases "n < 10")
  case True
  then have "toString10 n = [digit10 n]"
    by (simp add: toString10.simps)
  with True show ?thesis
    by (simp add: formatLength_def padStart_def digit10_0)
next
  case False
  with assms have d: "n div 10 < 10" by simp
  have "toString10 n = toString10 (n div 10) @ [digit10 (n mod 10)]"
    using False by (subst toString10.simps) simp
  also have "toString10 (n div 10) = [digit10 (n div 10)]"
    using d by (subst toString10.simps) simp
  finally show ?thesis
    by (simp add: formatLength_def padStart_def)
qed

text \<open>
  C1, as stated, fails: \<^verbatim>\<open>createTLV\<close> has no error result. For a value of 100 characters
  it returns a string, whose length field is the three characters \<^verbatim>\<open>100\<close>.
\<close>

theorem createTLV_100_counterexample:
  "createTLV (js ''59'') (replicate 100 0x41) = js ''59'' @ js ''100'' @ replicate 100 0x41"
  by (simp add: eval_defs)

text \<open>
  C1, amended: \<^verbatim>\<open>createTLV\<close> always returns a string. For every tag and every value of at
  most 99 characters the string is the tag, the length as two decimal digits (zero-padded)
  and the value; a value of exactly 99 characters has the length header \<^verbatim>\<open>99\<close>.
\<close>

theorem createTLV_two_digit_header:
  assumes "length v \<le> 99"
  shows "createTLV t v = t @ [digit10 (length v div 10), digit10 (length v mod 10)] @ v
    \<and> (length v = 99 \<longrightarrow> createTLV t v = t @ js ''99'' @ v)"
  using assms
  by (simp add: createTLV_def getEmvoLength_def formatLength_two_digits js_def digit10_def)

theorem createTLV_two_digit_header_witness:
  "length (replicate 99 (0x41 :: jschar)) \<le> 99
   \<and> createTLV (js ''59'') (replicate 99 0x41) = js ''59'' @ js ''99'' @ replicate 99 0x41"
  using createTLV_two_digit_header [of "replicate 99 0x41" "js ''59''"]
  by (simp add: js_def digit10_def)

text \<open>
  C2: for the merchant id \<^verbatim>\<open>com.konai.konacard\<close> the composite that
  \<^verbatim>\<open>generateMerchantAccountInfo\<close> builds carries the merchant id a second time under
  sub-tag 01, with length 18, where the claim has the 15 characters \<^verbatim>\<open>410790020044601\<close>.
\<close>

theorem generateMerchantAccountInfo_konacard:
  "generateMerchantAccountInfo (js ''com.konai.konacard'')
     = js ''0018com.konai.konacard0118com.konai.konacard''
   \<and> generateMerchantAccountInfo (js ''com.konai.konacard'')
     \<noteq> js ''0018com.konai.konacard0115410790020044601''"
  by (simp add: eval_defs)

text \<open>
  The TLV structure built by the same \<^verbatim>\<open>generateQrString\<close> call lists the fixed string
  under sub-tag 01 of tag 44, next to a value that does not contain it.
\<close>

lemma generateTlvs_merchant_subTags:
  "generateTlvs initialFormData ! 2 =
     TLVTag (js ''44'') (js ''0018com.konai.konacard0118com.konai.konacard'') 44
       (Some [TLVTag (js ''00'') (js ''com.konai.konacard'') 18 None,
              TLVTag (js ''01'') (js ''410790020044601'') 15 None])"
  by (simp add: generateTlvs_def initialFormData_def leafTag_def eval_defs Let_def nth_Cons')

section \<open>The checksum\<close>

lemma top_bit_test: "(ucast (a :: 16 word) :: 32 word) AND 0x8000 \<noteq> 0 \<longleftrightarrow> bit a 15"
proof -
  have "(ucast a :: 32 word) AND 2 ^ 15 = 0 \<longleftrightarrow> \<not> bit (ucast a :: 32 word) 15"
    by (rule and_exp_eq_0_iff_not_bit)
  then show ?thesis by (simp add: bit_ucast_iff)
qed

lemma mask16: "(x :: 32 word) AND 0xFFFF = take_bit 16 x"
  by (simp add: take_bit_eq_mask mask_eq_exp_minus_1)

lemma crc_round_ucast: "crc_round (ucast a) = ucast (ccitt_round a)"
proof -
  have s: "take_bit 16 (push_bit 1 (ucast a :: 32 word)) = ucast (push_bit 1 a)"
    by (rule bit_eqI) (auto simp add: bit_simps simp del: push_bit_Suc push_bit_numeral)
  have "take_bit 16 (push_bit 1 (ucast a :: 32 word) XOR 0x1021)
      = take_bit 16 (push_bit 1 (ucast a :: 32 word)) XOR take_bit 16 0x1021"
    by (rule take_bit_xor)
  also have "\<dots> = ucast (push_bit 1 a) XOR ucast (0x1021 :: 16 word)"
    unfolding s by simp
  also have "\<dots> = ucast (push_bit 1 a XOR 0x1021)"
    by (rule unsigned_xor_eq [symmetric])
  finally have x: "take_bit 16 (push_bit 1 (ucast a :: 32 word) XOR 0x1021) = ucast (push_bit 1 a XOR 0x1021)" .
  show ?thesis
    unfolding crc_round_def ccitt_round_def Let_def mask16 top_bit_test
    using s x by (simp del: push_bit_Suc push_bit_numeral)
qed

lemma crc_rounds_ucast: "(crc_round ^^ n) (ucast a) = ucast ((ccitt_round ^^ n) a)"
  by (induction n) (simp_all add: crc_round_ucast)

lemma xor_octet_ucast:
  "(ucast (a :: 16 word) :: 32 word) XOR push_bit 8 (ucast (b :: 8 word))
     = ucast (a XOR push_bit 8 (ucast b :: 16 word))"
  by (rule bit_eqI)
    (auto simp add: bit_simps simp del: push_bit_Suc push_bit_numeral dest: bit_imp_le_length)

lemma crc_byte_ucast: "crc_byte (ucast a) b = ucast (ccitt_octet a b)"
  unfolding crc_byte_def ccitt_octet_def xor_octet_ucast by (rule crc_rounds_ucast)

lemma foldl_crc_byte_ucast: "foldl crc_byte (ucast a) bs = ucast (foldl ccitt_octet a bs)"
  by (induction bs arbitrary: a) (simp_all add: crc_byte_ucast)

lemma crc16_bytes_refines: "crc16_bytes bs = ucast (crc16_ccitt_false bs)"
proof -
  have "(0xFFFF :: 32 word) = ucast (0xFFFF :: 16 word)" by simp
  then show ?thesis
    unfolding crc16_bytes_def crc16_ccitt_false_def by (simp only: foldl_crc_byte_ucast)
qed

lemma sint_ucast_16_32: "sint (ucast (w :: 16 word) :: 32 word) = int (unat w)"
proof -
  have "uint w < 65536"
    using uint_bounded [of w] by simp
  moreover have "0 \<le> uint w"
    by simp
  ultimately have "- 2147483648 \<le> uint w" "uint w < 2147483648"
    by linarith+
  then have "- (2 ^ 31) \<le> uint w" "uint w < 2 ^ 31"
    by simp_all
  then have "signed_take_bit 31 (uint w) = uint w"
    by (rule signed_take_bit_int_eq_self)
  then show ?thesis
    by (simp add: signed_ucast_eq)
qed

lemma toUpperCase_digit16: "d < 16 \<Longrightarrow> toUpperCase [digit16 d] = [hexUpper d]"
proof -
  assume "d < 16"
  then have "d = 0 \<or> d = 1 \<or> d = 2 \<or> d = 3 \<or> d = 4 \<or> d = 5 \<or> d = 6 \<or> d = 7 \<or> d = 8
    \<or> d = 9 \<or> d = 10 \<or> d = 11 \<or> d = 12 \<or> d = 13 \<or> d = 14 \<or> d = 15"
    by arith
  then show ?thesis
    by (elim disjE) (simp_all add: toUpperCase_def digit16_def hexUpper_def)
qed

lemma upper_hex_small: "n < 16 \<Longrightarrow> toUpperCase (toString16_nat n) = [hexUpper n]"
  by (subst toString16_nat.simps) (simp add: toUpperCase_digit16)

lemma upper_hex_step:
  assumes "16 \<le> n"
  shows "toUpperCase (toString16_nat n) = toUpperCase (toString16_nat (n div 16)) @ [hexUpper (n mod 16)]"
proof -
  have "toString16_nat n = toString16_nat (n div 16) @ [digit16 (n mod 16)]"
    using assms by (subst toString16_nat.simps) simp
  moreover have "toUpperCase (xs @ ys) = toUpperCase xs @ toUpperCase ys" for xs ys
    by (simp add: toUpperCase_def)
  ultimately show ?thesis
    by (simp add: toUpperCase_digit16)
qed

lemma hexUpper_0: "hexUpper 0 = 0x30"
  by (simp add: hexUpper_def)

lemma render_hex4:
  assumes "n < 65536"
  shows "padStart (toUpperCase (toString16_nat n)) 4 0x30
    = [hexUpper (n div 4096 mod 16), hexUpper (n div 256 mod 16), hexUpper (n div 16 mod 16),
       hexUpper (n mod 16)]"
proof -
  have b: "n div 16 div 16 = n div 256" "n div 256 div 16 = n div 4096"
    by (simp_all add: div_mult2_eq)
  have z: "replicate 3 (0x30 :: jschar) = [0x30, 0x30, 0x30]"
    "replicate 2 (0x30 :: jschar) = [0x30, 0x30]"
    by (simp_all add: numeral_eq_Suc)
  consider "n < 16" | "16 \<le> n" "n < 256" | "256 \<le> n" "n < 4096" | "4096 \<le> n"
    by linarith
  then show ?thesis
  proof cases
    case 1
    then have "toUpperCase (toString16_nat n) = [hexUpper n]"
      by (rule upper_hex_small)
    moreover from 1 have "n div 4096 = 0" "n div 256 = 0" "n div 16 = 0" "n mod 16 = n"
      by simp_all
    ultimately show ?thesis
      by (simp add: padStart_def hexUpper_0 z)
  next
    case 2
    then have "n div 16 < 16" by simp
    then have "toUpperCase (toString16_nat (n div 16)) = [hexUpper (n div 16)]"
      by (rule upper_hex_small)
    with upper_hex_step [OF 2(1)]
    have "toUpperCase (toString16_nat n) = [hexUpper (n div 16), hexUpper (n mod 16)]"
      by simp
    moreover from 2 have "n div 4096 = 0" "n div 256 = 0" "n div 16 mod 16 = n div 16"
      by simp_all
    ultimately show ?thesis
      by (simp add: padStart_def hexUpper_0 z)
  next
    case 3
    then have a: "16 \<le> n" "16 \<le> n div 16" "n div 256 < 16" by simp_all
    from a(3) have "toUpperCase (toString16_nat (n div 256)) = [hexUpper (n div 256)]"
      by (rule upper_hex_small)
    with upper_hex_step [OF a(1)] upper_hex_step [OF a(2)]
    have "toUpperCase (toString16_nat n)
      = [hexUpper (n div 256), hexUpper (n div 16 mod 16), hexUpper (n mod 16)]"
      by (simp add: b)
    moreover from 3 have "n div 4096 = 0" "n div 256 mod 16 = n div 256"
      by simp_all
    ultimately show ?thesis
      by (simp add: padStart_def hexUpper_0)
  next
    case 4
    with assms have a: "16 \<le> n" "16 \<le> n div 16" "16 \<le> n div 256" "n div 4096 < 16"
      by simp_all
    from a(3) have a3: "16 \<le> n div 16 div 16" by (simp add: b)
    from a(4) have "toUpperCase (toString16_nat (n div 4096)) = [hexUpper (n div 4096)]"
      by (rule upper_hex_small)
    with upper_hex_step [OF a(1)] upper_hex_step [OF a(2)] upper_hex_step [OF a3]
    have "toUpperCase (toString16_nat n)
      = [hexUpper (n div 4096), hexUpper (n div 256 mod 16), hexUpper (n div 16 mod 16),
         hexUpper (n mod 16)]"
      by (simp add: b)
    moreover from a(4) have "n div 4096 mod 16 = n div 4096"
      by simp
    ultimately show ?thesis
      by (simp add: padStart_def)
  qed
qed

lemma calculateCRC16_hex4: "calculateCRC16 d = hex4 (crc16_ccitt_false (utf8_encode d))"
proof -
  have "unat (crc16_ccitt_false (utf8_encode d)) < 65536"
    using unsigned_less [of "crc16_ccitt_false (utf8_encode d)", where ?'a = nat] by simp
  then show ?thesis
    by (simp add: calculateCRC16_def crc16_bytes_refines sint_ucast_16_32 toString16_def
        render_hex4 hex4_def Let_def)
qed

lemma length_calculateCRC16: "length (calculateCRC16 d) = 4"
  by (simp add: calculateCRC16_hex4 hex4_def Let_def)

text \<open>
  C4: on every byte sequence the 32-bit accumulator of \<^verbatim>\<open>calculateCRC16\<close> holds the
  CRC-16/CCITT-FALSE value of the reference, and \<^verbatim>\<open>calculateCRC16\<close> returns that value of the
  UTF-8 bytes of its argument as four upper-case, zero-padded hexadecimal digits; for the
  empty input the result is \<^verbatim>\<open>FFFF\<close>.
\<close>

theorem calculateCRC16_is_ccitt_false:
  "crc16_bytes bs = ucast (crc16_ccitt_false bs)
   \<and> calculateCRC16 d = hex4 (crc16_ccitt_false (utf8_encode d))
   \<and> calculateCRC16 [] = js ''FFFF''"
proof -
  have "hex4 (crc16_ccitt_false (utf8_encode [])) = js ''FFFF''"
    by (simp add: hex4_def crc16_ccitt_false_def js_def hexUpper_def)
  then show ?thesis
    by (simp add: calculateCRC16_hex4 crc16_bytes_refines)
qed

text \<open>
  C3: for every record the string of \<^verbatim>\<open>generateQrString\<close> is the TLVs 00, 01, 44, 52, 53, 58,
  59, 60, 64 in this order, then \<^verbatim>\<open>63\<close>, \<^verbatim>\<open>04\<close> and the four checksum characters, the checksum
  being taken over the body followed by \<^verbatim>\<open>6304\<close>. The value of 44 is sub-tag 00 then sub-tag
  01, the value of 64 is the sub-tags 00, 01, 02 in this order.
\<close>

theorem generateQrString_layout:
  "generateQrString r =
     createTLV (js ''00'') (payloadFormatIndicator r)
     @ createTLV (js ''01'') (pointOfInitiationMethod r)
     @ createTLV (js ''44'') (generateMerchantAccountInfo (merchantId r))
     @ createTLV (js ''52'') (merchantCategoryCode r)
     @ createTLV (js ''53'') (transactionCurrency r)
     @ createTLV (js ''58'') (countryCode r)
     @ createTLV (js ''59'') (merchantName r)
     @ createTLV (js ''60'') (merchantCity r)
     @ createTLV (js ''64'') (generateAdditionalDataTLV (additionalData r))
     @ js ''63'' @ js ''04'' @ calculateCRC16 (qrWithoutCrc r @ js ''6304'')
   \<and> generateQrString r = qrWithoutCrc r @ js ''6304'' @ calculateCRC16 (qrWithoutCrc r @ js ''6304'')
   \<and> length (calculateCRC16 (qrWithoutCrc r @ js ''6304'')) = 4
   \<and> (\<exists>s. generateMerchantAccountInfo (merchantId r)
          = createTLV (js ''00'') (merchantId r) @ createTLV (js ''01'') s)
   \<and> generateAdditionalDataTLV (additionalData r)
       = createTLV (js ''00'') (ad00 (additionalData r))
         @ createTLV (js ''01'') (ad01 (additionalData r))
         @ createTLV (js ''02'') (ad02 (additionalData r))"
proof -
  let ?c = "calculateCRC16 (qrWithoutCrc r @ js ''6304'')"
  have l: "length ?c = 4" by (rule length_calculateCRC16)
  then have "createTLV (js ''63'') ?c = js ''63'' @ js ''04'' @ ?c"
    by (simp add: createTLV_def getEmvoLength_def formatLength_two_digits digit10_def js_def)
  then have g: "generateQrString r = qrWithoutCrc r @ js ''63'' @ js ''04'' @ ?c"
    by (simp add: generateQrString_def Let_def)
  have j: "js ''63'' @ js ''04'' @ x = js ''6304'' @ x" for x
    by (simp add: js_def)
  have m: "\<exists>s. generateMerchantAccountInfo (merchantId r)
          = createTLV (js ''00'') (merchantId r) @ createTLV (js ''01'') s"
    unfolding generateMerchantAccountInfo_def Let_def by blast
  show ?thesis
    using g l m j unfolding qrWithoutCrc_def generateAdditionalDataTLV_def Let_def
    by simp
qed

section \<open>Walking a sequence of TLV nodes\<close>

lemma substring_append_mid:
  "substring (a @ m @ b) (int (length a)) (int (length a) + int (length m)) = m"
proof -
  let ?len = "int (length (a @ m @ b))"
  have s: "min (max (int (length a)) 0) ?len = int (length a)"
    by simp
  have e: "min (max (int (length a) + int (length m)) 0) ?len = int (length a) + int (length m)"
    by simp
  show ?thesis
    unfolding substring_def Let_def s e by simp
qed

lemma unat_digit10: "d < 10 \<Longrightarrow> unat (digit10 d) = 48 + d"
  unfolding digit10_def unat_of_nat by simp

lemma isDigit_unat: "isDigit c \<longleftrightarrow> 48 \<le> unat c \<and> unat c \<le> 57"
  by (simp add: isDigit_def word_le_nat_alt)

lemma isDigit_not_space_sign:
  assumes "isDigit c"
  shows "\<not> isStrWhiteSpaceChar c" "c \<noteq> 0x2D" "c \<noteq> 0x2B"
  using assms by (auto simp add: isDigit_unat isStrWhiteSpaceChar_def word_le_nat_alt)

lemma parseInt10_two_digits:
  assumes "isDigit c" "isDigit d"
  shows "parseInt10 [c, d] = Some (int (10 * (unat c - 48) + (unat d - 48)))"
  using assms isDigit_not_space_sign [OF assms(1)]
  by (simp add: parseInt10_def digitsValue_def Let_def)

lemma parseInt10_formatLength:
  assumes "n \<le> 99"
  shows "parseInt10 (formatLength n) = Some (int n)"
proof -
  from assms have d: "n div 10 < 10" "n mod 10 < 10" by simp_all
  then have "isDigit (digit10 (n div 10))" "isDigit (digit10 (n mod 10))"
    by (simp_all add: isDigit_unat unat_digit10)
  then show ?thesis
    using d by (simp add: formatLength_two_digits [OF assms] parseInt10_two_digits unat_digit10)
qed

lemma length_formatLength: "n \<le> 99 \<Longrightarrow> length (formatLength n) = 2"
  by (simp add: formatLength_two_digits)

lemma parseTLV_createTLV:
  assumes "length t = 2" "length v \<le> 99"
  shows "parseTLV (p @ createTLV t v @ s) (int (length p))
    = Some \<lparr>tag = t, length_tlv = int (length v), value_tlv = v,
            nextIndex = int (length p) + 4 + int (length v)\<rparr>"
proof -
  let ?h = "formatLength (length v)"
  let ?d = "p @ createTLV t v @ s"
  have h: "length ?h = 2" using assms(2) by (rule length_formatLength)
  have d: "?d = p @ t @ ?h @ v @ s"
    by (simp add: createTLV_def getEmvoLength_def)
  have "substring (p @ t @ (?h @ v @ s)) (int (length p)) (int (length p) + int (length t)) = t"
    by (rule substring_append_mid)
  then have t: "substring ?d (int (length p)) (int (length p) + 2) = t"
    using assms(1) by (simp add: d ac_simps)
  have "substring ((p @ t) @ ?h @ (v @ s)) (int (length (p @ t))) (int (length (p @ t)) + int (length ?h)) = ?h"
    by (rule substring_append_mid)
  then have l: "substring ?d (int (length p) + 2) (int (length p) + 4) = ?h"
    using assms(1) h by (simp add: d ac_simps)
  have "substring ((p @ t @ ?h) @ v @ s) (int (length (p @ t @ ?h))) (int (length (p @ t @ ?h)) + int (length v)) = v"
    by (rule substring_append_mid)
  then have v: "substring ?d (int (length p) + 4) (int (length p) + 4 + int (length v)) = v"
    using assms(1) h by (simp add: d ac_simps)
  have n: "int (length ?d) = int (length p) + 4 + int (length v) + int (length s)"
    using assms(1) h by (simp add: d ac_simps)
  show ?thesis
    unfolding parseTLV_def Let_def t l parseInt10_formatLength [OF assms(2)] n
    by (simp add: v)
qed


lemma parseTLV_shift_None:
  assumes "parseTLV s 0 = None"
  shows "parseTLV (p @ s) (int (length p)) = None"
proof -
  have sub: "substring (p @ s) (int (length p) + 2) (int (length p) + 4) = substring s 2 4"
    by (simp add: substring_def Let_def min_def max_def nat_add_distrib)
  show ?thesis
    using assms unfolding parseTLV_def Let_def sub
    by (auto split: option.splits if_splits)
qed

lemma parseTLV_short: "length s < 4 \<Longrightarrow> parseTLV s 0 = None"
  by (simp add: parseTLV_def)


lemma length_createTLV: "length v \<le> 99 \<Longrightarrow> length (createTLV t v) = length t + 2 + length v"
  by (simp add: createTLV_def getEmvoLength_def length_formatLength)

lemma encodeTLVs_Nil: "encodeTLVs [] = []"
  by (simp add: encodeTLVs_def)

lemma encodeTLVs_Cons: "encodeTLVs ((t, v) # tlvs) = createTLV t v @ encodeTLVs tlvs"
  by (simp add: encodeTLVs_def)

lemma encodeTLVs_append: "encodeTLVs (xs @ ys) = encodeTLVs xs @ encodeTLVs ys"
  by (simp add: encodeTLVs_def)

lemma parseSubTLVs_loop_stop:
  assumes "int (length d) \<le> i \<or> parseTLV d i = None"
  shows "parseSubTLVs_loop d i m = Some m"
  using assms by (subst parseSubTLVs_loop.simps) auto

lemma parseSubTLVs_loop_step:
  assumes "length t = 2" "length v \<le> 99"
  shows "parseSubTLVs_loop (p @ createTLV t v @ s) (int (length p)) m
    = parseSubTLVs_loop (p @ createTLV t v @ s) (int (length (p @ createTLV t v))) (storeTLV (t, v) m)"
proof -
  have "int (length p) < int (length (p @ createTLV t v @ s))"
    using assms by (simp add: length_createTLV)
  then show ?thesis
    using assms
    by (subst parseSubTLVs_loop.simps)
      (simp add: parseTLV_createTLV length_createTLV add.assoc storeTLV_def)
qed

lemma parseSubTLVs_loop_tlvs:
  assumes "list_all wellFormed tlvs"
  shows "parseSubTLVs_loop (p @ encodeTLVs tlvs @ s) (int (length p)) m
    = parseSubTLVs_loop (p @ encodeTLVs tlvs @ s) (int (length (p @ encodeTLVs tlvs)))
        (fold storeTLV tlvs m)"
  using assms
proof (induction tlvs arbitrary: p m)
  case Nil
  show ?case by (simp add: encodeTLVs_Nil)
next
  case (Cons tv tlvs)
  obtain t v where tv: "tv = (t, v)" by (cases tv)
  from Cons.prems have "wellFormed (t, v)" and rest: "list_all wellFormed tlvs"
    by (simp_all add: tv)
  then have wf: "length t = 2" "length v \<le> 99"
    by (simp_all add: wellFormed_def)
  have "parseSubTLVs_loop (p @ encodeTLVs (tv # tlvs) @ s) (int (length p)) m
      = parseSubTLVs_loop (p @ createTLV t v @ (encodeTLVs tlvs @ s)) (int (length p)) m"
    by (simp add: tv encodeTLVs_Cons)
  also have "\<dots> = parseSubTLVs_loop (p @ createTLV t v @ (encodeTLVs tlvs @ s))
      (int (length (p @ createTLV t v))) (storeTLV (t, v) m)"
    using wf by (rule parseSubTLVs_loop_step)
  also have "\<dots> = parseSubTLVs_loop ((p @ createTLV t v) @ encodeTLVs tlvs @ s)
      (int (length (p @ createTLV t v))) (storeTLV (t, v) m)"
    by simp
  also have "\<dots> = parseSubTLVs_loop ((p @ createTLV t v) @ encodeTLVs tlvs @ s)
      (int (length ((p @ createTLV t v) @ encodeTLVs tlvs)))
      (fold storeTLV tlvs (storeTLV (t, v) m))"
    using rest by (rule Cons.IH)
  finally show ?case
    by (simp add: tv encodeTLVs_Cons)
qed

lemma parseSubTLVs_tlvs:
  assumes "list_all wellFormed tlvs" "parseTLV s 0 = None"
  shows "parseSubTLVs (encodeTLVs tlvs @ s) = Some (fold storeTLV tlvs Map.empty)"
proof -
  have "parseSubTLVs (encodeTLVs tlvs @ s)
      = parseSubTLVs_loop ([] @ encodeTLVs tlvs @ s) (int (length ([] :: jsstring))) Map.empty"
    by (simp add: parseSubTLVs_def)
  also have "\<dots> = parseSubTLVs_loop ([] @ encodeTLVs tlvs @ s) (int (length ([] @ encodeTLVs tlvs)))
      (fold storeTLV tlvs Map.empty)"
    using assms(1) by (rule parseSubTLVs_loop_tlvs)
  also have "\<dots> = Some (fold storeTLV tlvs Map.empty)"
    using parseTLV_shift_None [OF assms(2), of "encodeTLVs tlvs"]
    by (intro parseSubTLVs_loop_stop) simp
  finally show ?thesis .
qed


lemma parseQrString_loop_stop:
  assumes "int (length d) \<le> i \<or> parseTLV d i = None"
  shows "parseQrString_loop d i pd = Some pd"
  using assms by (subst parseQrString_loop.simps) auto

lemma parseQrString_loop_step:
  assumes "length t = 2" "length v \<le> 99"
  shows "parseQrString_loop (p @ createTLV t v @ s) (int (length p)) pd
    = (case switchTag t v pd of
         None \<Rightarrow> None
       | Some pd' \<Rightarrow>
           parseQrString_loop (p @ createTLV t v @ s) (int (length (p @ createTLV t v))) pd')"
proof -
  have "int (length p) < int (length (p @ createTLV t v @ s))"
    using assms by (simp add: length_createTLV)
  then show ?thesis
    using assms
    by (subst parseQrString_loop.simps)
      (simp add: parseTLV_createTLV length_createTLV add.assoc split: option.split)
qed

lemma parseQrString_loop_tlvs:
  assumes "list_all wellFormed tlvs"
  shows "parseQrString_loop (p @ encodeTLVs tlvs @ s) (int (length p)) pd
    = (case foldTags tlvs pd of
         None \<Rightarrow> None
       | Some pd' \<Rightarrow>
           parseQrString_loop (p @ encodeTLVs tlvs @ s) (int (length (p @ encodeTLVs tlvs))) pd')"
  using assms
proof (induction tlvs arbitrary: p pd)
  case Nil
  show ?case by (simp add: encodeTLVs_Nil)
next
  case (Cons tv tlvs)
  obtain t v where tv: "tv = (t, v)" by (cases tv)
  from Cons.prems have "wellFormed (t, v)" and rest: "list_all wellFormed tlvs"
    by (simp_all add: tv)
  then have wf: "length t = 2" "length v \<le> 99"
    by (simp_all add: wellFormed_def)
  let ?sw = "switchTag t v pd"
  have "parseQrString_loop (p @ encodeTLVs (tv # tlvs) @ s) (int (length p)) pd
      = parseQrString_loop (p @ createTLV t v @ (encodeTLVs tlvs @ s)) (int (length p)) pd"
    by (simp add: tv encodeTLVs_Cons)
  also have "\<dots> = (case ?sw of None \<Rightarrow> None | Some pd' \<Rightarrow>
      parseQrString_loop (p @ createTLV t v @ (encodeTLVs tlvs @ s))
        (int (length (p @ createTLV t v))) pd')"
    using wf by (rule parseQrString_loop_step)
  also have "\<dots> = (case ?sw of None \<Rightarrow> None | Some pd' \<Rightarrow>
      (case foldTags tlvs pd' of None \<Rightarrow> None | Some pd'' \<Rightarrow>
        parseQrString_loop ((p @ createTLV t v) @ encodeTLVs tlvs @ s)
          (int (length ((p @ createTLV t v) @ encodeTLVs tlvs))) pd''))"
    using Cons.IH [OF rest, of "p @ createTLV t v"] by (simp split: option.split)
  finally show ?case
    by (simp add: tv encodeTLVs_Cons split: option.split)
qed

lemma parseQrString_tlvs:
  assumes "list_all wellFormed tlvs" "parseTLV s 0 = None"
  shows "parseQrString (encodeTLVs tlvs @ s) prev
    = map_option (mergeFormData prev) (foldTags tlvs initialParsedData)"
proof -
  have "parseQrString_loop (encodeTLVs tlvs @ s) 0 initialParsedData
      = parseQrString_loop ([] @ encodeTLVs tlvs @ s) (int (length ([] :: jsstring))) initialParsedData"
    by simp
  also have "\<dots> = (case foldTags tlvs initialParsedData of None \<Rightarrow> None | Some pd' \<Rightarrow>
      parseQrString_loop ([] @ encodeTLVs tlvs @ s) (int (length ([] @ encodeTLVs tlvs))) pd')"
    using assms(1) by (rule parseQrString_loop_tlvs)
  also have "\<dots> = foldTags tlvs initialParsedData"
    using parseTLV_shift_None [OF assms(2), of "encodeTLVs tlvs"]
    by (simp add: parseQrString_loop_stop split: option.split)
  finally show ?thesis
    by (simp add: parseQrString_def)
qed

lemma parseTLV_Nil: "parseTLV [] 0 = None"
  by (simp add: parseTLV_def)

lemma foldTags_append:
  "foldTags (xs @ ys) pd = (case foldTags xs pd of None \<Rightarrow> None | Some pd' \<Rightarrow> foldTags ys pd')"
  by (induction xs arbitrary: pd) (auto split: option.split)

lemma switchTag_Some:
  assumes "compositeParses (t, v)"
  shows "switchTag t v pd \<noteq> None"
proof -
  from assms have "t = js ''44'' \<Longrightarrow> parseSubTLVs v \<noteq> None"
    and "t = js ''64'' \<Longrightarrow> parseSubTLVs v \<noteq> None"
    by (simp_all add: compositeParses_def)
  then show ?thesis
    by (auto simp add: switchTag_def)
qed

lemma foldTags_Some:
  assumes "list_all compositeParses tlvs"
  shows "foldTags tlvs pd \<noteq> None"
  using assms
proof (induction tlvs arbitrary: pd)
  case Nil
  show ?case by simp
next
  case (Cons tv tlvs)
  obtain t v where tv: "tv = (t, v)" by (cases tv)
  from Cons.prems have c: "compositeParses (t, v)" and rest: "list_all compositeParses tlvs"
    by (simp_all add: tv)
  from c have "switchTag t v pd \<noteq> None"
    by (rule switchTag_Some)
  with Cons.IH [OF rest] show ?case
    by (auto simp add: tv)
qed

section \<open>Decoding a sequence of TLV nodes\<close>

lemmas decode_defs = parseQrString_def parseQrString_loop.simps parseSubTLVs_def
  parseSubTLVs_loop.simps parseTLV_def substring_def js_def parseInt10_def
  isStrWhiteSpaceChar_def isDigit_def digitsValue_def switchTag_def lookupOrEmpty_def
  initialParsedData_def mergeFormData_def orPrev_def initialFormData_def

lemma headerStops_parseTLV: "headerStops rest \<Longrightarrow> parseTLV rest 0 = None"
  by (auto simp add: headerStops_def parseTLV_def Let_def split: option.splits)

text \<open>
  C5, as stated, fails: a length header that is not a number, or a declared length that
  exceeds the rest of the input, ends the walk without an error, and the form data is
  updated from the TLVs parsed before it.
\<close>

theorem parseQrString_partial_counterexample:
  "parseQrString (js ''00029901XXabcd'') initialFormData
     = Some (initialFormData\<lparr>payloadFormatIndicator := js ''99'',
          additionalData := \<lparr>ad00 = [], ad01 = [], ad02 = []\<rparr>\<rparr>)
   \<and> parseQrString (js ''0002990105ab'') initialFormData
     = Some (initialFormData\<lparr>payloadFormatIndicator := js ''99'',
          additionalData := \<lparr>ad00 = [], ad01 = [], ad02 = []\<rparr>\<rparr>)"
  by (simp add: decode_defs)

text \<open>
  C5, amended: \<^verbatim>\<open>parseQrString\<close> reports no error. When well-formed TLVs are followed by a
  length header that is not a number, or that declares more characters than are left, the
  walk stops there silently and the call returns: the new form data is the one that the TLVs
  before that point give, as if the input had ended there.
\<close>

theorem parseQrString_stops_at_malformed:
  assumes "list_all wellFormed tlvs" "list_all compositeParses tlvs" "headerStops rest"
  shows "parseQrString (encodeTLVs tlvs @ rest) prev = parseQrString (encodeTLVs tlvs) prev
    \<and> parseQrString (encodeTLVs tlvs @ rest) prev
        = map_option (mergeFormData prev) (foldTags tlvs initialParsedData)
    \<and> parseQrString (encodeTLVs tlvs @ rest) prev \<noteq> None"
proof -
  have a: "parseQrString (encodeTLVs tlvs @ rest) prev
      = map_option (mergeFormData prev) (foldTags tlvs initialParsedData)"
    using assms(1) headerStops_parseTLV [OF assms(3)] by (rule parseQrString_tlvs)
  have b: "parseQrString (encodeTLVs tlvs @ []) prev
      = map_option (mergeFormData prev) (foldTags tlvs initialParsedData)"
    using assms(1) parseTLV_Nil by (rule parseQrString_tlvs)
  have c: "foldTags tlvs initialParsedData \<noteq> None"
    using assms(2) by (rule foldTags_Some)
  from a b c show ?thesis by simp
qed

text \<open>
  C9, as stated, fails in its "exactly": the walk also stops silently with four or more
  characters left, here six, at a length header that is not a number.
\<close>

theorem parseSubTLVs_stop_counterexample:
  "parseSubTLVs (js ''0002ab01XXcd'') = Some (Map.empty(js ''00'' \<mapsto> js ''ab''))"
  by (simp add: decode_defs)

text \<open>
  C9, amended: after well-formed TLVs the walk of \<^verbatim>\<open>parseSubTLVs\<close> stops silently when fewer
  than four characters are left (none, or a fragment of one to three characters), and also
  when the next length header is not a number or declares more characters than are left;
  the rest is dropped and every TLV parsed before it is kept.
\<close>

theorem parseSubTLVs_stops_silently:
  assumes "list_all wellFormed tlvs" "length rest < 4 \<or> headerStops rest"
  shows "parseSubTLVs (encodeTLVs tlvs @ rest) = Some (fold storeTLV tlvs Map.empty)"
proof -
  from assms(2) have "parseTLV rest 0 = None"
    using parseTLV_short headerStops_parseTLV by blast
  with assms(1) show ?thesis by (rule parseSubTLVs_tlvs)
qed

lemma switchTag_unknown: "t \<notin> set knownTags \<Longrightarrow> switchTag t v pd = Some pd"
  by (simp add: knownTags_def switchTag_def)

text \<open>
  C8: an unrecognized two-character tag with a value of at most 99 characters, among
  well-formed TLVs whose composite values parse, does not make \<^verbatim>\<open>parseQrString\<close> fail: the
  call returns, and it returns what it returns for the input without that TLV.
\<close>

theorem parseQrString_skips_unknown_tag:
  assumes "list_all wellFormed pre" "list_all wellFormed post"
    and "list_all compositeParses pre" "list_all compositeParses post"
    and "length t = 2" "length v \<le> 99" "t \<notin> set knownTags"
  shows "parseQrString (encodeTLVs pre @ createTLV t v @ encodeTLVs post) prev
      = parseQrString (encodeTLVs pre @ encodeTLVs post) prev
    \<and> parseQrString (encodeTLVs pre @ createTLV t v @ encodeTLVs post) prev \<noteq> None"
proof -
  have wf: "list_all wellFormed (pre @ (t, v) # post)" "list_all wellFormed (pre @ post)"
    using assms(1,2,5,6) by (simp_all add: wellFormed_def)
  have s: "foldTags ((t, v) # post) pd = foldTags post pd" for pd
    using assms(7) by (simp add: switchTag_unknown)
  have f: "foldTags (pre @ (t, v) # post) pd = foldTags (pre @ post) pd" for pd
    unfolding foldTags_append s ..
  have e: "encodeTLVs pre @ createTLV t v @ encodeTLVs post = encodeTLVs (pre @ (t, v) # post) @ []"
    "encodeTLVs pre @ encodeTLVs post = encodeTLVs (pre @ post) @ []"
    by (simp_all add: encodeTLVs_append encodeTLVs_Cons)
  have a: "parseQrString (encodeTLVs pre @ createTLV t v @ encodeTLVs post) prev
      = map_option (mergeFormData prev) (foldTags (pre @ post) initialParsedData)"
    unfolding e(1) using parseQrString_tlvs [OF wf(1) parseTLV_Nil] by (simp add: f)
  have b: "parseQrString (encodeTLVs pre @ encodeTLVs post) prev
      = map_option (mergeFormData prev) (foldTags (pre @ post) initialParsedData)"
    unfolding e(2) using wf(2) parseTLV_Nil by (rule parseQrString_tlvs)
  have "list_all compositeParses (pre @ post)"
    using assms(3,4) by simp
  then have c: "foldTags (pre @ post) initialParsedData \<noteq> None"
    by (rule foldTags_Some)
  from a b c show ?thesis by simp
qed


lemma lastValue_Nil: "lastValue [] k = None"
  by (simp add: lastValue_def)

lemma lastValue_Cons:
  "lastValue ((t, v) # tlvs) k
     = (case lastValue tlvs k of None \<Rightarrow> (if t = k then Some v else None) | Some w \<Rightarrow> Some w)"
  by (simp add: lastValue_def map_add_def split: option.split)

lemma foldTags_last:
  assumes step: "\<And>t v pd pd'. switchTag t v pd = Some pd' \<Longrightarrow>
      f pd' = (if t = k then Some (g v) else f pd)"
    and "foldTags tlvs pd = Some pd'"
  shows "f pd' = (case lastValue tlvs k of None \<Rightarrow> f pd | Some v \<Rightarrow> Some (g v))"
  using assms(2)
proof (induction tlvs arbitrary: pd)
  case Nil
  then show ?case by (simp add: lastValue_Nil)
next
  case (Cons tv tlvs)
  obtain t v where tv: "tv = (t, v)" by (cases tv)
  from Cons.prems obtain pd1 where s: "switchTag t v pd = Some pd1"
    and r: "foldTags tlvs pd1 = Some pd'"
    by (auto simp add: tv split: option.splits)
  from Cons.IH [OF r] step [OF s] show ?case
    by (simp add: tv lastValue_Cons split: option.split)
qed

lemma switchTag_sets:
  assumes "switchTag t v pd = Some pd'"
  shows "p_payloadFormatIndicator pd' = (if t = js ''00'' then Some v else p_payloadFormatIndicator pd)"
    and "p_pointOfInitiationMethod pd' = (if t = js ''01'' then Some v else p_pointOfInitiationMethod pd)"
    and "p_merchantAccountInfo pd' = (if t = js ''44'' then Some v else p_merchantAccountInfo pd)"
    and "p_merchantId pd'
      = (if t = js ''44'' then Some (subField v (js ''00'')) else p_merchantId pd)"
    and "p_merchantCategoryCode pd' = (if t = js ''52'' then Some v else p_merchantCategoryCode pd)"
    and "p_transactionCurrency pd' = (if t = js ''53'' then Some v else p_transactionCurrency pd)"
    and "p_countryCode pd' = (if t = js ''58'' then Some v else p_countryCode pd)"
    and "p_merchantName pd' = (if t = js ''59'' then Some v else p_merchantName pd)"
    and "p_merchantCity pd' = (if t = js ''60'' then Some v else p_merchantCity pd)"
    and "p_additionalData pd'
      = (if t = js ''64'' then Some \<lparr>ad00 = subField v (js ''00''), ad01 = subField v (js ''01''),
           ad02 = subField v (js ''02'')\<rparr> else p_additionalData pd)"
    and "p_crc pd' = (if t = js ''63'' then Some v else p_crc pd)"
  using assms
  by (auto simp add: switchTag_def subField_def js_def split: if_splits option.splits)

lemma parseQrString_loop_parsedTLVs:
  assumes "parseQrString_loop q i pd = Some y"
  shows "\<exists>tlvs. parsedTLVs q i = Some tlvs \<and> foldTags tlvs pd = Some y"
proof (rule parseQrString_loop.raw_induct
    [where P = "\<lambda>q i pd y. \<exists>tlvs. parsedTLVs q i = Some tlvs \<and> foldTags tlvs pd = Some y",
     OF _ assms])
  fix loop :: "jsstring \<Rightarrow> int \<Rightarrow> PartialEmvoQrData \<Rightarrow> PartialEmvoQrData option"
  fix q i pd y
  assume IH: "\<And>q i pd y. loop q i pd = Some y \<Longrightarrow>
      \<exists>tlvs. parsedTLVs q i = Some tlvs \<and> foldTags tlvs pd = Some y"
  assume body: "(if i < int (length q) then
      (case parseTLV q i of None \<Rightarrow> Some pd
       | Some parsed \<Rightarrow>
           (case switchTag (tag parsed) (value_tlv parsed) pd of None \<Rightarrow> None
            | Some pd' \<Rightarrow> loop q (nextIndex parsed) pd'))
      else Some pd) = Some y"
  show "\<exists>tlvs. parsedTLVs q i = Some tlvs \<and> foldTags tlvs pd = Some y"
  proof (cases "i < int (length q) \<and> parseTLV q i \<noteq> None")
    case False
    with body have "y = pd" by (auto split: if_splits)
    moreover from False have "parsedTLVs q i = Some []"
      by (subst parsedTLVs.simps) auto
    ultimately show ?thesis by simp
  next
    case True
    then obtain parsed where p: "i < int (length q)" "parseTLV q i = Some parsed" by auto
    with body obtain pd' where s: "switchTag (tag parsed) (value_tlv parsed) pd = Some pd'"
      and l: "loop q (nextIndex parsed) pd' = Some y"
      by (auto split: option.splits)
    from IH [OF l] obtain later where t: "parsedTLVs q (nextIndex parsed) = Some later"
      and f: "foldTags later pd' = Some y" by blast
    have "parsedTLVs q i = Some ((tag parsed, value_tlv parsed) # later)"
      using p t by (subst parsedTLVs.simps) simp
    moreover have "foldTags ((tag parsed, value_tlv parsed) # later) pd = Some y"
      using s f by simp
    ultimately show ?thesis by blast
  qed
qed

text \<open>
  C6, as stated, fails: a field whose tag does not occur keeps the value of the form data
  held before the call, not a default. On the input \<^verbatim>\<open>5204AAAA\<close> the merchant name \<^verbatim>\<open>OTHER\<close>
  held before stays, where the default is \<^verbatim>\<open>KONA\<close>, so the result depends on the previous
  state; the parsed category code \<^verbatim>\<open>AAAA\<close> is stored.
\<close>

theorem parseQrString_keeps_prev_counterexample:
  "map_option merchantName (parseQrString (js ''5204AAAA'') editedFormData) = Some (js ''OTHER'')
   \<and> map_option merchantName (parseQrString (js ''5204AAAA'') initialFormData) = Some (js ''KONA'')
   \<and> map_option merchantCategoryCode (parseQrString (js ''5204AAAA'') editedFormData)
       = Some (js ''AAAA'')"
  by (simp add: decode_defs editedFormData_def)

text \<open>
  C6, amended: for every input string on which \<^verbatim>\<open>parseQrString\<close> returns, the new form data
  is the form data held before the call merged with the parsed (tag, value) pairs. A field
  whose tag occurs holds the value of the last TLV with that tag; for tag 44 the merchant id
  is sub-tag 00 of that value, and for tag 64 the additional data are its sub-tags 00, 01
  and 02. A field whose tag does not occur keeps its previous value, not a default; only
  \<^verbatim>\<open>additionalData\<close> is independent of the previous state, being three empty strings when tag 64
  does not occur.
\<close>

theorem parseQrString_merges_into_prev:
  assumes "parseQrString q prev = Some r"
  shows "\<exists>tlvs. parsedTLVs q 0 = Some tlvs
    \<and> payloadFormatIndicator r
        = (case lastValue tlvs (js ''00'') of None \<Rightarrow> payloadFormatIndicator prev | Some v \<Rightarrow> v)
    \<and> pointOfInitiationMethod r
        = (case lastValue tlvs (js ''01'') of None \<Rightarrow> pointOfInitiationMethod prev | Some v \<Rightarrow> v)
    \<and> merchantAccountInfo r
        = (case lastValue tlvs (js ''44'') of None \<Rightarrow> merchantAccountInfo prev | Some v \<Rightarrow> v)
    \<and> merchantId r
        = (case lastValue tlvs (js ''44'') of None \<Rightarrow> merchantId prev
           | Some v \<Rightarrow> subField v (js ''00''))
    \<and> merchantCategoryCode r
        = (case lastValue tlvs (js ''52'') of None \<Rightarrow> merchantCategoryCode prev | Some v \<Rightarrow> v)
    \<and> transactionCurrency r
        = (case lastValue tlvs (js ''53'') of None \<Rightarrow> transactionCurrency prev | Some v \<Rightarrow> v)
    \<and> countryCode r
        = (case lastValue tlvs (js ''58'') of None \<Rightarrow> countryCode prev | Some v \<Rightarrow> v)
    \<and> merchantName r
        = (case lastValue tlvs (js ''59'') of None \<Rightarrow> merchantName prev | Some v \<Rightarrow> v)
    \<and> merchantCity r
        = (case lastValue tlvs (js ''60'') of None \<Rightarrow> merchantCity prev | Some v \<Rightarrow> v)
    \<and> additionalData r
        = (case lastValue tlvs (js ''64'') of None \<Rightarrow> \<lparr>ad00 = [], ad01 = [], ad02 = []\<rparr>
           | Some v \<Rightarrow> \<lparr>ad00 = subField v (js ''00''), ad01 = subField v (js ''01''),
               ad02 = subField v (js ''02'')\<rparr>)
    \<and> crc r = (case lastValue tlvs (js ''63'') of None \<Rightarrow> crc prev | Some v \<Rightarrow> v)"
proof -
  from assms obtain pd where l: "parseQrString_loop q 0 initialParsedData = Some pd"
    and r: "r = mergeFormData prev pd"
    by (auto simp add: parseQrString_def)
  from parseQrString_loop_parsedTLVs [OF l] obtain tlvs
    where t: "parsedTLVs q 0 = Some tlvs" and f: "foldTags tlvs initialParsedData = Some pd"
    by blast
  note k = foldTags_last [OF _ f]
  have "p_payloadFormatIndicator pd = lastValue tlvs (js ''00'')"
    and "p_pointOfInitiationMethod pd = lastValue tlvs (js ''01'')"
    and "p_merchantAccountInfo pd = lastValue tlvs (js ''44'')"
    and "p_merchantId pd = map_option (\<lambda>v. subField v (js ''00'')) (lastValue tlvs (js ''44''))"
    and "p_merchantCategoryCode pd = lastValue tlvs (js ''52'')"
    and "p_transactionCurrency pd = lastValue tlvs (js ''53'')"
    and "p_countryCode pd = lastValue tlvs (js ''58'')"
    and "p_merchantName pd = lastValue tlvs (js ''59'')"
    and "p_merchantCity pd = lastValue tlvs (js ''60'')"
    and "p_additionalData pd = Some (case lastValue tlvs (js ''64'') of
           None \<Rightarrow> \<lparr>ad00 = [], ad01 = [], ad02 = []\<rparr>
         | Some v \<Rightarrow> \<lparr>ad00 = subField v (js ''00''), ad01 = subField v (js ''01''),
               ad02 = subField v (js ''02'')\<rparr>)"
    and "p_crc pd = lastValue tlvs (js ''63'')"
    using k [of p_payloadFormatIndicator "js ''00''" "\<lambda>v. v", OF switchTag_sets(1)]
      k [of p_pointOfInitiationMethod "js ''01''" "\<lambda>v. v", OF switchTag_sets(2)]
      k [of p_merchantAccountInfo "js ''44''" "\<lambda>v. v", OF switchTag_sets(3)]
      k [of p_merchantId "js ''44''" "\<lambda>v. subField v (js ''00'')", OF switchTag_sets(4)]
      k [of p_merchantCategoryCode "js ''52''" "\<lambda>v. v", OF switchTag_sets(5)]
      k [of p_transactionCurrency "js ''53''" "\<lambda>v. v", OF switchTag_sets(6)]
      k [of p_countryCode "js ''58''" "\<lambda>v. v", OF switchTag_sets(7)]
      k [of p_merchantName "js ''59''" "\<lambda>v. v", OF switchTag_sets(8)]
      k [of p_merchantCity "js ''60''" "\<lambda>v. v", OF switchTag_sets(9)]
      k [of p_additionalData "js ''64''" "\<lambda>v. \<lparr>ad00 = subField v (js ''00''),
           ad01 = subField v (js ''01''), ad02 = subField v (js ''02'')\<rparr>", OF switchTag_sets(10)]
      k [of p_crc "js ''63''" "\<lambda>v. v", OF switchTag_sets(11)]
    by (simp_all add: initialParsedData_def split: option.split)
  then have "payloadFormatIndicator r
        = (case lastValue tlvs (js ''00'') of None \<Rightarrow> payloadFormatIndicator prev | Some v \<Rightarrow> v)"
    and "pointOfInitiationMethod r
        = (case lastValue tlvs (js ''01'') of None \<Rightarrow> pointOfInitiationMethod prev | Some v \<Rightarrow> v)"
    and "merchantAccountInfo r
        = (case lastValue tlvs (js ''44'') of None \<Rightarrow> merchantAccountInfo prev | Some v \<Rightarrow> v)"
    and "merchantId r
        = (case lastValue tlvs (js ''44'') of None \<Rightarrow> merchantId prev
           | Some v \<Rightarrow> subField v (js ''00''))"
    and "merchantCategoryCode r
        = (case lastValue tlvs (js ''52'') of None \<Rightarrow> merchantCategoryCode prev | Some v \<Rightarrow> v)"
    and "transactionCurrency r
        = (case lastValue tlvs (js ''53'') of None \<Rightarrow> transactionCurrency prev | Some v \<Rightarrow> v)"
    and "countryCode r
        = (case lastValue tlvs (js ''58'') of None \<Rightarrow> countryCode prev | Some v \<Rightarrow> v)"
    and "merchantName r
        = (case lastValue tlvs (js ''59'') of None \<Rightarrow> merchantName prev | Some v \<Rightarrow> v)"
    and "merchantCity r
        = (case lastValue tlvs (js ''60'') of None \<Rightarrow> merchantCity prev | Some v \<Rightarrow> v)"
    and "additionalData r
        = (case lastValue tlvs (js ''64'') of None \<Rightarrow> \<lparr>ad00 = [], ad01 = [], ad02 = []\<rparr>
           | Some v \<Rightarrow> \<lparr>ad00 = subField v (js ''00''), ad01 = subField v (js ''01''),
               ad02 = subField v (js ''02'')\<rparr>)"
    and "crc r = (case lastValue tlvs (js ''63'') of None \<Rightarrow> crc prev | Some v \<Rightarrow> v)"
    by (simp_all add: r mergeFormData_def orPrev_def split: option.split)
  with t show ?thesis by blast
qed

section \<open>Round trip\<close>

lemma length_js: "length (js s) = length s"
  by (simp add: js_def)








section \<open>Termination\<close>

lemma parseTLV_neg: "parseTLV (js ''00-4'') 0
    = Some \<lparr>tag = js ''00'', length_tlv = - 4, value_tlv = js ''00-4'', nextIndex = 0\<rparr>"
  by (simp add: parseTLV_def substring_def js_def parseInt10_def isStrWhiteSpaceChar_def
      isDigit_def digitsValue_def)

lemma parseSubTLVs_loop_diverges: "parseSubTLVs_loop (js ''00-4'') 0 m = None"
proof (rule ccontr)
  assume "parseSubTLVs_loop (js ''00-4'') 0 m \<noteq> None"
  then obtain y where y: "parseSubTLVs_loop (js ''00-4'') 0 m = Some y" by auto
  have "\<not> (d = js ''00-4'' \<and> i = 0)" if "parseSubTLVs_loop d i m = Some y" for d i m y
  proof (rule parseSubTLVs_loop.raw_induct
      [where P = "\<lambda>d i m y. \<not> (d = js ''00-4'' \<and> i = 0)", OF _ that])
    fix loop :: "jsstring \<Rightarrow> int \<Rightarrow> (jsstring \<rightharpoonup> jsstring) \<Rightarrow> (jsstring \<rightharpoonup> jsstring) option"
    fix d i m y
    assume IH: "\<And>d i m y. loop d i m = Some y \<Longrightarrow> \<not> (d = js ''00-4'' \<and> i = 0)"
    assume body: "(if i < int (length d) then
        (case parseTLV d i of None \<Rightarrow> Some m
         | Some parsed \<Rightarrow> loop d (nextIndex parsed) (m(tag parsed \<mapsto> value_tlv parsed)))
        else Some m) = Some y"
    show "\<not> (d = js ''00-4'' \<and> i = 0)"
    proof
      assume "d = js ''00-4'' \<and> i = 0"
      then have d: "d = js ''00-4''" and i: "i = 0" by simp_all
      from body have "loop (js ''00-4'') 0 (m(js ''00'' \<mapsto> js ''00-4'')) = Some y"
        by (simp add: d i parseTLV_neg length_js)
      with IH show False by blast
    qed
  qed
  with y show False by blast
qed

lemma parseQrString_loop_diverges: "parseQrString_loop (js ''00-4'') 0 pd = None"
proof (rule ccontr)
  assume "parseQrString_loop (js ''00-4'') 0 pd \<noteq> None"
  then obtain y where y: "parseQrString_loop (js ''00-4'') 0 pd = Some y" by auto
  have "\<not> (d = js ''00-4'' \<and> i = 0)" if "parseQrString_loop d i pd = Some y" for d i pd y
  proof (rule parseQrString_loop.raw_induct
      [where P = "\<lambda>d i pd y. \<not> (d = js ''00-4'' \<and> i = 0)", OF _ that])
    fix loop :: "jsstring \<Rightarrow> int \<Rightarrow> PartialEmvoQrData \<Rightarrow> PartialEmvoQrData option"
    fix d i pd y
    assume IH: "\<And>d i pd y. loop d i pd = Some y \<Longrightarrow> \<not> (d = js ''00-4'' \<and> i = 0)"
    assume body: "(if i < int (length d) then
        (case parseTLV d i of None \<Rightarrow> Some pd
         | Some parsed \<Rightarrow>
             (case switchTag (tag parsed) (value_tlv parsed) pd of None \<Rightarrow> None
              | Some pd' \<Rightarrow> loop d (nextIndex parsed) pd'))
        else Some pd) = Some y"
    show "\<not> (d = js ''00-4'' \<and> i = 0)"
    proof
      assume "d = js ''00-4'' \<and> i = 0"
      then have d: "d = js ''00-4''" and i: "i = 0" by simp_all
      have "switchTag (js ''00'') (js ''00-4'') pd
          = Some (pd\<lparr>p_payloadFormatIndicator := Some (js ''00-4'')\<rparr>)"
        by (simp add: switchTag_def)
      with body have "loop (js ''00-4'') 0 (pd\<lparr>p_payloadFormatIndicator := Some (js ''00-4'')\<rparr>) = Some y"
        by (simp add: d i parseTLV_neg length_js)
      with IH show False by blast
    qed
  qed
  with y show False by blast
qed

text \<open>
  C10: on the input \<^verbatim>\<open>00-4\<close> the length header parses to -4, so \<^verbatim>\<open>parseTLV\<close> returns a next
  index equal to the start index, and neither \<^verbatim>\<open>parseSubTLVs\<close> nor \<^verbatim>\<open>parseQrString\<close> ever
  returns.
\<close>

theorem negative_length_never_returns:
  "parseTLV (js ''00-4'') 0
     = Some \<lparr>tag = js ''00'', length_tlv = - 4, value_tlv = js ''00-4'', nextIndex = 0\<rparr>
   \<and> parseSubTLVs (js ''00-4'') = None
   \<and> parseQrString (js ''00-4'') prev = None"
  by (simp add: parseTLV_neg parseSubTLVs_def parseSubTLVs_loop_diverges parseQrString_def
      parseQrString_loop_diverges)

section \<open>Instances\<close>

text \<open>The theorems with hypotheses, at concrete inputs that satisfy them.\<close>

theorem parseQrString_stops_at_malformed_witness:
  "list_all wellFormed [(js ''00'', js ''99''), (js ''44'', js ''0002ab'')]
   \<and> list_all compositeParses [(js ''00'', js ''99''), (js ''44'', js ''0002ab'')]
   \<and> headerStops (js ''01XXabcd'')
   \<and> parseQrString (encodeTLVs [(js ''00'', js ''99''), (js ''44'', js ''0002ab'')] @ js ''01XXabcd'')
         initialFormData
       = parseQrString (encodeTLVs [(js ''00'', js ''99''), (js ''44'', js ''0002ab'')]) initialFormData
   \<and> parseQrString (encodeTLVs [(js ''00'', js ''99''), (js ''44'', js ''0002ab'')] @ js ''01XXabcd'')
         initialFormData \<noteq> None"
proof -
  have w: "list_all wellFormed [(js ''00'', js ''99''), (js ''44'', js ''0002ab'')]"
    by (simp add: wellFormed_def length_js)
  have c: "list_all compositeParses [(js ''00'', js ''99''), (js ''44'', js ''0002ab'')]"
    by (simp add: compositeParses_def decode_defs)
  have h: "headerStops (js ''01XXabcd'')"
    by (simp add: headerStops_def decode_defs)
  show ?thesis
    using w c h parseQrString_stops_at_malformed [OF w c h, of initialFormData] by blast
qed

theorem parseSubTLVs_stops_silently_witness:
  "list_all wellFormed [(js ''00'', js ''ab''), (js ''01'', js ''c'')]
   \<and> length (js ''02X'') < 4
   \<and> parseSubTLVs (encodeTLVs [(js ''00'', js ''ab''), (js ''01'', js ''c'')] @ js ''02X'')
       = Some (fold storeTLV [(js ''00'', js ''ab''), (js ''01'', js ''c'')] Map.empty)"
proof -
  have w: "list_all wellFormed [(js ''00'', js ''ab''), (js ''01'', js ''c'')]"
    by (simp add: wellFormed_def length_js)
  have l: "length (js ''02X'') < 4 \<or> headerStops (js ''02X'')"
    by (simp add: length_js)
  show ?thesis
    using w parseSubTLVs_stops_silently [OF w l] by (simp add: length_js)
qed

theorem parseQrString_skips_unknown_tag_witness:
  "list_all wellFormed [(js ''00'', js ''01'')] \<and> list_all wellFormed [(js ''59'', js ''KONA'')]
   \<and> list_all compositeParses [(js ''00'', js ''01'')]
   \<and> list_all compositeParses [(js ''59'', js ''KONA'')]
   \<and> js ''99'' \<notin> set knownTags
   \<and> parseQrString (encodeTLVs [(js ''00'', js ''01'')] @ createTLV (js ''99'') (js ''xyz'')
         @ encodeTLVs [(js ''59'', js ''KONA'')]) initialFormData
       = parseQrString (encodeTLVs [(js ''00'', js ''01'')] @ encodeTLVs [(js ''59'', js ''KONA'')])
           initialFormData
   \<and> parseQrString (encodeTLVs [(js ''00'', js ''01'')] @ createTLV (js ''99'') (js ''xyz'')
         @ encodeTLVs [(js ''59'', js ''KONA'')]) initialFormData \<noteq> None"
proof -
  have w: "list_all wellFormed [(js ''00'', js ''01'')]" "list_all wellFormed [(js ''59'', js ''KONA'')]"
    by (simp_all add: wellFormed_def length_js)
  have c: "list_all compositeParses [(js ''00'', js ''01'')]"
    "list_all compositeParses [(js ''59'', js ''KONA'')]"
    by (simp_all add: compositeParses_def js_def)
  have t: "length (js ''99'') = 2" "length (js ''xyz'') \<le> 99" "js ''99'' \<notin> set knownTags"
    by (simp_all add: knownTags_def js_def)
  show ?thesis
    using w c t(3) parseQrString_skips_unknown_tag [OF w c t, of initialFormData] by blast
qed

theorem parseQrString_merges_into_prev_witness:
  "parseQrString (js ''5204AAAA5903ABC5902XY60'') editedFormData
     = Some (editedFormData\<lparr>merchantCategoryCode := js ''AAAA'', merchantName := js ''XY'',
          additionalData := \<lparr>ad00 = [], ad01 = [], ad02 = []\<rparr>\<rparr>)
   \<and> parsedTLVs (js ''5204AAAA5903ABC5902XY60'') 0
     = Some [(js ''52'', js ''AAAA''), (js ''59'', js ''ABC''), (js ''59'', js ''XY'')]
   \<and> (\<exists>tlvs. parsedTLVs (js ''5204AAAA5903ABC5902XY60'') 0 = Some tlvs
        \<and> lastValue tlvs (js ''59'') = Some (js ''XY'')
        \<and> lastValue tlvs (js ''60'') = None
        \<and> merchantName (editedFormData\<lparr>merchantCategoryCode := js ''AAAA'',
              merchantName := js ''XY'', additionalData := \<lparr>ad00 = [], ad01 = [], ad02 = []\<rparr>\<rparr>)
            = (case lastValue tlvs (js ''59'') of None \<Rightarrow> merchantName editedFormData | Some v \<Rightarrow> v)
        \<and> merchantCity (editedFormData\<lparr>merchantCategoryCode := js ''AAAA'',
              merchantName := js ''XY'', additionalData := \<lparr>ad00 = [], ad01 = [], ad02 = []\<rparr>\<rparr>)
            = (case lastValue tlvs (js ''60'') of None \<Rightarrow> merchantCity editedFormData | Some v \<Rightarrow> v))"
proof -
  let ?q = "js ''5204AAAA5903ABC5902XY60''"
  let ?r = "editedFormData\<lparr>merchantCategoryCode := js ''AAAA'', merchantName := js ''XY'',
          additionalData := \<lparr>ad00 = [], ad01 = [], ad02 = []\<rparr>\<rparr>"
  have h: "parseQrString ?q editedFormData = Some ?r"
    by (simp add: decode_defs editedFormData_def)
  have p: "parsedTLVs ?q 0 = Some [(js ''52'', js ''AAAA''), (js ''59'', js ''ABC''), (js ''59'', js ''XY'')]"
    by (simp add: parsedTLVs.simps decode_defs)
  have v: "lastValue [(js ''52'', js ''AAAA''), (js ''59'', js ''ABC''), (js ''59'', js ''XY'')] (js ''59'')
      = Some (js ''XY'')"
    "lastValue [(js ''52'', js ''AAAA''), (js ''59'', js ''ABC''), (js ''59'', js ''XY'')] (js ''60'') = None"
    by (simp_all add: lastValue_def js_def)
  from parseQrString_merges_into_prev [OF h] p v
  have "\<exists>tlvs. parsedTLVs ?q 0 = Some tlvs
        \<and> lastValue tlvs (js ''59'') = Some (js ''XY'')
        \<and> lastValue tlvs (js ''60'') = None
        \<and> merchantName ?r
            = (case lastValue tlvs (js ''59'') of None \<Rightarrow> merchantName editedFormData | Some v \<Rightarrow> v)
        \<and> merchantCity ?r
            = (case lastValue tlvs (js ''60'') of None \<Rightarrow> merchantCity editedFormData | Some v \<Rightarrow> v)"
    by auto
  with h p show ?thesis by blast
qed


end
